theory Spec2Isabelle
  imports Main
begin

section \<open>Data model (lib/types.ts)\<close>

text \<open>
  The interfaces \<^verbatim>\<open>Symbol\<close>, \<^verbatim>\<open>IngestedSymbol\<close> and \<^verbatim>\<open>SymbolUpdate\<close> declare the same four
  fields. The two modals build their objects as \<^verbatim>\<open>{ symbol: symbol.toUpperCase(), exchange }\<close>,
  so at run time \<^verbatim>\<open>description\<close> and \<^verbatim>\<open>securityType\<close> may be \<^verbatim>\<open>undefined\<close>: they are
  optional here.
\<close>

text \<open>
  A JavaScript string is a sequence of UTF-16 code units. The text of a symbol record and
  the text of a bulk upload go through \<^verbatim>\<open>trim\<close>, \<^verbatim>\<open>split\<close> and \<^verbatim>\<open>toUpperCase\<close>, which look at
  the code units, so this text is a list of code units; \<open>js\<close> gives the code units of an
  ASCII literal of the program. The names fixed in the program (paths, header names, the
  storage key) and the opaque token and search text stay Isabelle strings.
\<close>

type_synonym code_unit = nat

type_synonym js_string = "code_unit list"

definition js :: "string \<Rightarrow> js_string" where
  "js s = map of_char s"

abbreviation COMMA :: code_unit where
  "COMMA \<equiv> 0x2C"

abbreviation LINE_FEED :: code_unit where
  "LINE_FEED \<equiv> 0x0A"

record IngestedSymbol =
  symbol :: js_string
  exchange :: js_string
  description :: "js_string option"
  securityType :: "js_string option"

type_synonym SymbolUpdate = IngestedSymbol

text \<open>
  The optional fields of \<^verbatim>\<open>SearchParams\<close> are options; its field \<^verbatim>\<open>exchange\<close> is
  \<open>exchange_filter\<close> here, the name \<open>exchange\<close> being taken by the symbol records.
\<close>

record SearchParams =
  search_string :: "string option"
  exchange_filter :: "string option"
  security_type :: "string option"

record SystemConfig =
  schedule_hour :: int
  schedule_minute :: int
  timeframes_to_fetch :: "(string \<times> int) list"

record LoginCredentials =
  username :: string
  password :: string

section \<open>The JavaScript Map used by the reconciliation\<close>

text \<open>
  A JavaScript \<^verbatim>\<open>Map\<close> remembers the order in which its keys were first inserted:
  \<^verbatim>\<open>set\<close> on a key that is present replaces the value and leaves the position alone,
  \<^verbatim>\<open>set\<close> on a new key appends. The map is therefore an association list in insertion
  order. \<^verbatim>\<open>new Map(entries)\<close> calls \<^verbatim>\<open>set\<close> for every entry, in order, on an empty map;
  \<^verbatim>\<open>values()\<close> lists the values in key order.
\<close>

fun Map_set :: "('k \<times> 'v) list \<Rightarrow> 'k \<Rightarrow> 'v \<Rightarrow> ('k \<times> 'v) list" where
  "Map_set [] k v = [(k, v)]"
| "Map_set ((k', v') # m) k v =
     (if k' = k then (k, v) # m else (k', v') # Map_set m k v)"

definition Map_fill :: "('k \<times> 'v) list \<Rightarrow> ('k \<times> 'v) list \<Rightarrow> ('k \<times> 'v) list" where
  "Map_fill m entries = foldl (\<lambda>acc (k, v). Map_set acc k v) m entries"

definition new_Map :: "('k \<times> 'v) list \<Rightarrow> ('k \<times> 'v) list" where
  "new_Map entries = Map_fill [] entries"

definition Map_values :: "('k \<times> 'v) list \<Rightarrow> 'v list" where
  "Map_values m = map snd m"

section \<open>Symbol reconciliation (ingestion page)\<close>

text \<open>The template literal \<^verbatim>\<open>`${item.symbol}-${item.exchange}`\<close>.\<close>

definition dedup_key :: "IngestedSymbol \<Rightarrow> js_string" where
  "dedup_key item = symbol item @ js ''-'' @ exchange item"

text \<open>
  \<^verbatim>\<open>ingestedSymbols\<close> is the data of the list query: \<^verbatim>\<open>undefined\<close> until the query has
  answered, hence an option; \<^verbatim>\<open>ingestedSymbols || []\<close> is \<open>currentSymbols\<close>. Both handlers
  hand \<^verbatim>\<open>uniqueSymbols\<close> to \<^verbatim>\<open>handleSetSymbols\<close>, which submits it as the full replacement
  list; the model returns that list.
\<close>

definition currentSymbols :: "IngestedSymbol list option \<Rightarrow> IngestedSymbol list" where
  "currentSymbols ingestedSymbols = (case ingestedSymbols of None \<Rightarrow> [] | Some l \<Rightarrow> l)"

definition handleBulkUpload ::
  "IngestedSymbol list option \<Rightarrow> SymbolUpdate list \<Rightarrow> IngestedSymbol list" where
  "handleBulkUpload ingestedSymbols symbols =
     (let newSymbols = currentSymbols ingestedSymbols @ symbols;
          uniqueSymbolsMap = new_Map (map (\<lambda>item. (dedup_key item, item)) newSymbols);
          uniqueSymbols = Map_values uniqueSymbolsMap
      in uniqueSymbols)"

definition handleAddSymbol ::
  "IngestedSymbol list option \<Rightarrow> IngestedSymbol \<Rightarrow> IngestedSymbol list" where
  "handleAddSymbol ingestedSymbols item =
     (let newSymbols = currentSymbols ingestedSymbols @ [item];
          uniqueSymbolsMap = new_Map (map (\<lambda>i. (dedup_key i, i)) newSymbols);
          uniqueSymbols = Map_values uniqueSymbolsMap
      in uniqueSymbols)"

text \<open>The identity key of the data model: the pair (symbol, exchange).\<close>

definition identity_key :: "IngestedSymbol \<Rightarrow> js_string \<times> js_string" where
  "identity_key item = (symbol item, exchange item)"




definition entry_A_BC :: IngestedSymbol where
  "entry_A_BC = \<lparr>symbol = js ''A'', exchange = js ''B-C'', description = None,
     securityType = None\<rparr>"

definition entry_AB_C :: IngestedSymbol where
  "entry_AB_C = \<lparr>symbol = js ''A-B'', exchange = js ''C'', description = None,
     securityType = None\<rparr>"



section \<open>Strings\<close>

text \<open>
  \<^verbatim>\<open>trim\<close> removes white space and line terminators from both ends. These are, in the
  language definition, the code points U+0009, U+000B, U+000C, U+FEFF and those of the
  category space separator (U+0020, U+00A0, U+1680, U+2000 to U+200A, U+202F, U+205F,
  U+3000), and the line terminators U+000A, U+000D, U+2028 and U+2029; each is one code
  unit.
\<close>

definition isWhiteSpace :: "code_unit \<Rightarrow> bool" where
  "isWhiteSpace c \<longleftrightarrow>
     c = 0x09 \<or> c = 0x0A \<or> c = 0x0B \<or> c = 0x0C \<or> c = 0x0D \<or> c = 0x20 \<or> c = 0xA0 \<or>
     c = 0x1680 \<or> (0x2000 \<le> c \<and> c \<le> 0x200A) \<or> c = 0x2028 \<or> c = 0x2029 \<or>
     c = 0x202F \<or> c = 0x205F \<or> c = 0x3000 \<or> c = 0xFEFF"

definition String_trim :: "js_string \<Rightarrow> js_string" where
  "String_trim s = rev (dropWhile isWhiteSpace (rev (dropWhile isWhiteSpace s)))"

text \<open>
  \<^verbatim>\<open>split\<close> with a separator of one code unit returns the fields between the separators:
  the empty string has the single field \<^verbatim>\<open>""\<close>, and \<^verbatim>\<open>"a,"\<close> has the fields \<^verbatim>\<open>"a"\<close> and \<^verbatim>\<open>""\<close>.
\<close>

fun String_split :: "code_unit \<Rightarrow> js_string \<Rightarrow> js_string list" where
  "String_split sep [] = [[]]"
| "String_split sep (c # cs) =
     (if c = sep then [] # String_split sep cs
      else (case String_split sep cs of
              [] \<Rightarrow> [[c]]
            | first # rest \<Rightarrow> (c # first) # rest))"

text \<open>
  \<^verbatim>\<open>toUpperCase\<close> converts by the case mapping of Unicode. On a string of ASCII characters
  this maps the letters a to z to A to Z and leaves every other character alone. The
  mapping of the other characters is the table of the JavaScript engine, which is not part
  of the repository: the conversion of a string that has a character outside ASCII is the
  parameter \<open>unicodeUpper\<close>, and everything proved holds for every such table.
\<close>

definition toUpperCase_ascii :: "code_unit \<Rightarrow> code_unit" where
  "toUpperCase_ascii c = (if 0x61 \<le> c \<and> c \<le> 0x7A then c - 0x20 else c)"

definition toUpperCase :: "(js_string \<Rightarrow> js_string) \<Rightarrow> js_string \<Rightarrow> js_string" where
  "toUpperCase unicodeUpper s =
     (if list_all (\<lambda>c. c < 0x80) s then map toUpperCase_ascii s else unicodeUpper s)"

section \<open>Bulk-upload parsing (BulkUploadModal)\<close>

text \<open>
  \<^verbatim>\<open>const [symbol, exchange] = line.split(',').map(s => s.trim())\<close> binds the first two
  elements of the array, \<^verbatim>\<open>undefined\<close> where the array is shorter; \<^verbatim>\<open>symbol && exchange\<close>
  holds when both are defined and non-empty. The callback of \<^verbatim>\<open>forEach\<close> pushes onto the
  array \<^verbatim>\<open>symbols\<close>, which the model passes through.
\<close>

definition destructure2 :: "'a list \<Rightarrow> 'a option \<times> 'a option" where
  "destructure2 arr =
     (case arr of
        [] \<Rightarrow> (None, None)
      | [a] \<Rightarrow> (Some a, None)
      | a # b # _ \<Rightarrow> (Some a, Some b))"

definition truthy :: "'c list option \<Rightarrow> bool" where
  "truthy v = (case v of None \<Rightarrow> False | Some s \<Rightarrow> s \<noteq> [])"

definition parseLine ::
  "(js_string \<Rightarrow> js_string) \<Rightarrow> SymbolUpdate list \<Rightarrow> js_string \<Rightarrow> SymbolUpdate list" where
  "parseLine unicodeUpper symbols line =
     (case destructure2 (map String_trim (String_split COMMA line)) of
        (Some symbol', Some exchange') \<Rightarrow>
          if truthy (Some symbol') \<and> truthy (Some exchange')
          then symbols @ [\<lparr>symbol = toUpperCase unicodeUpper symbol', exchange = exchange',
                           description = None, securityType = None\<rparr>]
          else symbols
      | _ \<Rightarrow> symbols)"

definition parseSymbols :: "(js_string \<Rightarrow> js_string) \<Rightarrow> js_string \<Rightarrow> SymbolUpdate list" where
  "parseSymbols unicodeUpper text =
     (let lines = String_split LINE_FEED (String_trim text)
      in foldl (parseLine unicodeUpper) [] lines)"

text \<open>
  \<^verbatim>\<open>handleSubmit\<close> of the modal: the file content if one was loaded, otherwise the pasted
  text; the upload callback runs only when at least one symbol was parsed. Nothing is
  reported for the lines that were dropped.
\<close>

definition handleSubmit ::
  "(js_string \<Rightarrow> js_string) \<Rightarrow> js_string \<Rightarrow> js_string \<Rightarrow> SymbolUpdate list option" where
  "handleSubmit unicodeUpper fileContent textInput =
     (let content = (if fileContent \<noteq> [] then fileContent else textInput);
          symbols = parseSymbols unicodeUpper content
      in if length symbols > 0 then Some symbols else None)"

subsection \<open>The parsing rule in the words of the specification\<close>

text \<open>
  The rule as the specification words it: a line is split on its first comma into the
  symbol code (before the comma) and the exchange code (everything after it), both
  trimmed, the symbol code upper-cased; a line missing either field is dropped.
\<close>

definition spec_parseLine_first_comma ::
  "(js_string \<Rightarrow> js_string) \<Rightarrow> js_string \<Rightarrow> SymbolUpdate list" where
  "spec_parseLine_first_comma unicodeUpper line =
     (if COMMA \<notin> set line then []
      else
        (let symbol' = String_trim (takeWhile (\<lambda>c. c \<noteq> COMMA) line);
             exchange' = String_trim (drop 1 (dropWhile (\<lambda>c. c \<noteq> COMMA) line))
         in if symbol' = [] \<or> exchange' = [] then []
            else [\<lparr>symbol = toUpperCase unicodeUpper symbol', exchange = exchange',
                    description = None, securityType = None\<rparr>]))"

definition spec_parseSymbols_first_comma ::
  "(js_string \<Rightarrow> js_string) \<Rightarrow> js_string \<Rightarrow> SymbolUpdate list" where
  "spec_parseSymbols_first_comma unicodeUpper text =
     concat (map (spec_parseLine_first_comma unicodeUpper) (String_split LINE_FEED text))"

text \<open>
  The rule with the split amended: the symbol code is the text before the first comma, the
  exchange code the text between the first comma and the second (or the end of the line),
  and whatever follows a second comma is ignored.
\<close>

definition amended_parseLine_two_fields ::
  "(js_string \<Rightarrow> js_string) \<Rightarrow> js_string \<Rightarrow> SymbolUpdate list" where
  "amended_parseLine_two_fields unicodeUpper line =
     (if COMMA \<notin> set line then []
      else
        (let symbol' = String_trim (takeWhile (\<lambda>c. c \<noteq> COMMA) line);
             exchange' = String_trim (takeWhile (\<lambda>c. c \<noteq> COMMA)
                                   (drop 1 (dropWhile (\<lambda>c. c \<noteq> COMMA) line)))
         in if symbol' = [] \<or> exchange' = [] then []
            else [\<lparr>symbol = toUpperCase unicodeUpper symbol', exchange = exchange',
                    description = None, securityType = None\<rparr>]))"

definition amended_parseSymbols_two_fields ::
  "(js_string \<Rightarrow> js_string) \<Rightarrow> js_string \<Rightarrow> SymbolUpdate list" where
  "amended_parseSymbols_two_fields unicodeUpper text =
     concat (map (amended_parseLine_two_fields unicodeUpper) (String_split LINE_FEED text))"

text \<open>
  The texts of the examples: the one of the specification; one whose fields are padded with
  no-break spaces (U+00A0) and whose symbol code is in lower case; one whose symbol code
  has the letter e with acute accent (U+00E9), which is outside ASCII.
\<close>

definition bulk_example_text :: js_string where
  "bulk_example_text = js ''AAPL,NASDAQ\<newline>badline\<newline>MSFT, NASDAQ \<newline>''"

definition bulk_example_result :: "SymbolUpdate list" where
  "bulk_example_result =
     [\<lparr>symbol = js ''AAPL'', exchange = js ''NASDAQ'', description = None, securityType = None\<rparr>,
      \<lparr>symbol = js ''MSFT'', exchange = js ''NASDAQ'', description = None, securityType = None\<rparr>]"

definition nbsp_example_text :: js_string where
  "nbsp_example_text = [0xA0] @ js ''aapl'' @ [0xA0] @ js '','' @ [0xA0] @ js ''NASDAQ'' @ [0xA0]"

definition accent_example_text :: js_string where
  "accent_example_text = [0xE9] @ js '',X''"

section \<open>Requests and the state of the client\<close>

text \<open>
  A request as the API client hands it to the transport: method, path, what is sent along
  (query parameters or body) and the headers.
\<close>

datatype http_method = GET | POST

datatype payload =
    NoPayload
  | QueryParams SearchParams
  | SymbolPayload IngestedSymbol
  | SymbolsPayload "IngestedSymbol list"
  | ConfigPayload SystemConfig
  | FormPayload "(string \<times> string) list"

record request_config =
  http_method :: http_method
  url :: string
  payload :: payload
  headers :: "string \<rightharpoonup> string"

text \<open>
  The state the client code reads and writes: whether a \<^verbatim>\<open>window\<close> exists, the browser's
  \<^verbatim>\<open>localStorage\<close>, the requests that have left the API client (in order), the targets of
  \<^verbatim>\<open>router.push\<close> (in order), and the \<^verbatim>\<open>isLoading\<close> state of the authentication wrapper.
\<close>

record world =
  has_window :: bool
  localStorage :: "string \<rightharpoonup> string"
  sent :: "request_config list"
  pushed :: "string list"
  isLoading :: bool

section \<open>Token store (lib/auth.ts)\<close>

definition TOKEN_KEY :: string where
  "TOKEN_KEY = ''authToken''"

definition getToken :: "world \<Rightarrow> string option" where
  "getToken w = (if has_window w then localStorage w TOKEN_KEY else None)"

definition setToken :: "string \<Rightarrow> world \<Rightarrow> world" where
  "setToken token w =
     (if has_window w then w\<lparr>localStorage := (localStorage w)(TOKEN_KEY \<mapsto> token)\<rparr> else w)"

definition removeToken :: "world \<Rightarrow> world" where
  "removeToken w =
     (if has_window w then w\<lparr>localStorage := (localStorage w)(TOKEN_KEY := None)\<rparr> else w)"

definition isAuthenticated :: "world \<Rightarrow> bool" where
  "isAuthenticated w = (let token = getToken w in truthy token)"

section \<open>API client (lib/api.ts)\<close>

text \<open>
  A request either resolves with the data of the response or is rejected; the client does
  not tell a transport failure from a rejection by the backend. The backend is a function
  from the request, as it leaves the client, to that outcome.
\<close>

datatype failure = NetworkError | StatusError nat

type_synonym 'r backend = "request_config \<Rightarrow> failure + 'r"

text \<open>The request interceptor registered on the axios instance \<^verbatim>\<open>api\<close>.\<close>

definition request_interceptor :: "world \<Rightarrow> request_config \<Rightarrow> request_config" where
  "request_interceptor w config =
     (let token = getToken w
      in case token of
           None \<Rightarrow> config
         | Some t \<Rightarrow>
             if truthy token
             then config\<lparr>headers := (headers config)(''Authorization'' \<mapsto> ''Bearer '' @ t)\<rparr>
             else config)"

text \<open>
  A call through the instance: the configuration passes the interceptor, the resulting
  request leaves the client, and the backend's outcome comes back.
\<close>

definition api_request :: "'r backend \<Rightarrow> request_config \<Rightarrow> world \<Rightarrow> (failure + 'r) \<times> world" where
  "api_request backend config w =
     (let request = request_interceptor w config
      in (backend request, w\<lparr>sent := sent w @ [request]\<rparr>))"

definition api_get :: "'r backend \<Rightarrow> string \<Rightarrow> payload \<Rightarrow> world \<Rightarrow> (failure + 'r) \<times> world" where
  "api_get backend path params w =
     api_request backend
       \<lparr>http_method = GET, url = path, payload = params, headers = Map.empty\<rparr> w"

definition api_post ::
  "'r backend \<Rightarrow> string \<Rightarrow> payload \<Rightarrow> (string \<rightharpoonup> string) \<Rightarrow> world \<Rightarrow> (failure + 'r) \<times> world" where
  "api_post backend path body hdrs w =
     api_request backend
       \<lparr>http_method = POST, url = path, payload = body, headers = hdrs\<rparr> w"

definition searchSymbols :: "'r backend \<Rightarrow> SearchParams \<Rightarrow> world \<Rightarrow> (failure + 'r) \<times> world" where
  "searchSymbols backend params = api_get backend ''/search_symbols/'' (QueryParams params)"

definition getIngestedSymbols :: "'r backend \<Rightarrow> world \<Rightarrow> (failure + 'r) \<times> world" where
  "getIngestedSymbols backend = api_get backend ''/get_ingestion_symbols/'' NoPayload"

definition addSymbol :: "'r backend \<Rightarrow> IngestedSymbol \<Rightarrow> world \<Rightarrow> (failure + 'r) \<times> world" where
  "addSymbol backend item =
     api_post backend ''/add_ingestion_symbol/'' (SymbolPayload item) Map.empty"

definition removeIngestedSymbol ::
  "'r backend \<Rightarrow> IngestedSymbol \<Rightarrow> world \<Rightarrow> (failure + 'r) \<times> world" where
  "removeIngestedSymbol backend item =
     api_post backend ''/remove_ingestion_symbol/'' (SymbolPayload item) Map.empty"

definition setSymbols :: "'r backend \<Rightarrow> IngestedSymbol list \<Rightarrow> world \<Rightarrow> (failure + 'r) \<times> world" where
  "setSymbols backend symbols =
     api_post backend ''/set_ingestion_symbols/'' (SymbolsPayload symbols) Map.empty"

definition getSystemConfig :: "'r backend \<Rightarrow> world \<Rightarrow> (failure + 'r) \<times> world" where
  "getSystemConfig backend = api_get backend ''/get_system_config/'' NoPayload"

definition setSystemConfig :: "'r backend \<Rightarrow> SystemConfig \<Rightarrow> world \<Rightarrow> (failure + 'r) \<times> world" where
  "setSystemConfig backend config =
     api_post backend ''/set_system_config/'' (ConfigPayload config) Map.empty"

definition loginUser :: "'r backend \<Rightarrow> LoginCredentials \<Rightarrow> world \<Rightarrow> (failure + 'r) \<times> world" where
  "loginUser backend credentials =
     (let params = [(''username'', username credentials), (''password'', password credentials)]
      in api_post backend ''/token'' (FormPayload params)
           [''Content-Type'' \<mapsto> ''application/x-www-form-urlencoded''])"

definition getCurrentUser :: "'r backend \<Rightarrow> world \<Rightarrow> (failure + 'r) \<times> world" where
  "getCurrentUser backend = api_get backend ''/users/me/'' NoPayload"

text \<open>
  What the request-augmentation step is to attach, in the words of the specification: the
  bearer credential when the token store holds a token, nothing otherwise. As in
  \<^verbatim>\<open>isAuthenticated\<close>, an empty string counts as no token.
\<close>

definition bearer_credential :: "world \<Rightarrow> string option" where
  "bearer_credential w =
     (case getToken w of
        None \<Rightarrow> None
      | Some t \<Rightarrow> if t = [] then None else Some (''Bearer '' @ t))"

definition issued :: "world \<Rightarrow> world \<Rightarrow> request_config list" where
  "issued w w' = drop (length (sent w)) (sent w')"

section \<open>Auth gate (components/withAuth.tsx)\<close>

definition router_push :: "string \<Rightarrow> world \<Rightarrow> world" where
  "router_push path w = w\<lparr>pushed := pushed w @ [path]\<rparr>"

definition setIsLoading :: "bool \<Rightarrow> world \<Rightarrow> world" where
  "setIsLoading b w = w\<lparr>isLoading := b\<rparr>"

definition verifyToken :: "'r backend \<Rightarrow> string \<Rightarrow> world \<Rightarrow> world" where
  "verifyToken backend pathname w =
     (if pathname = ''/login'' then setIsLoading False w
      else
        (let token = getToken w
         in if \<not> truthy token then router_push ''/login'' w
            else
              (case getCurrentUser backend w of
                 (Inr user, w') \<Rightarrow> setIsLoading False w'
               | (Inl error, w') \<Rightarrow> router_push ''/login'' (removeToken w'))))"

text \<open>
  The wrapper starts with \<^verbatim>\<open>useState(true)\<close> and renders the loading indicator while
  \<^verbatim>\<open>isLoading\<close> holds, the wrapped component otherwise.
\<close>

datatype view = Authenticating | WrappedComponent

definition mount :: "world \<Rightarrow> world" where
  "mount w = w\<lparr>isLoading := True\<rparr>"

definition render :: "world \<Rightarrow> view" where
  "render w = (if isLoading w then Authenticating else WrappedComponent)"

section \<open>Data-access hooks (hooks/useSymbols.ts, hooks/useConfig.ts)\<close>

text \<open>
  The hooks are written against the query cache of the data-fetching library; the cache
  is modelled by the contract the hooks rely on. There is an entry per query key, with the
  data last fetched and the mark set by an invalidation.
  \<^verbatim>\<open>invalidateQueries({ queryKey })\<close> marks every entry whose key starts with the given key
  (the hooks do not ask for an exact match). A query that is not enabled fetches nothing.
  An enabled query calls its query function, and stores the answer, when the cache has no
  data for its key or the entry is marked. An entry that has data and is not marked is
  served from the cache: this is the library at its most trusting (an unlimited stale
  time), so that a fetch seen in the model is forced by the mark and by nothing else.
\<close>

datatype key_part = Name string | Params SearchParams

type_synonym query_key = "key_part list"

record 'r query_entry =
  entry_data :: "'r option"
  isInvalidated :: bool

type_synonym 'r query_cache = "query_key \<rightharpoonup> 'r query_entry"



record 'r query_options =
  queryKey :: query_key
  queryFn :: "world \<Rightarrow> (failure + 'r) \<times> world"
  enabled :: bool

definition useQuery ::
  "'r query_options \<Rightarrow> world \<times> 'r query_cache \<Rightarrow> 'r option \<times> world \<times> 'r query_cache" where
  "useQuery options st =
     (let w = fst st; cache = snd st; cached = cache (queryKey options);
          cachedData = (case cached of None \<Rightarrow> None | Some e \<Rightarrow> entry_data e);
          mustFetch = (case cached of
                         None \<Rightarrow> True
                       | Some e \<Rightarrow> entry_data e = None \<or> isInvalidated e)
      in if \<not> enabled options \<or> \<not> mustFetch then (cachedData, w, cache)
         else
           (case queryFn options w of
              (Inr d, w') \<Rightarrow>
                (Some d, w',
                 cache(queryKey options \<mapsto> \<lparr>entry_data = Some d, isInvalidated = False\<rparr>))
            | (Inl error, w') \<Rightarrow> (cachedData, w', cache)))"



definition useSearchSymbols :: "'r backend \<Rightarrow> SearchParams \<Rightarrow> bool \<Rightarrow> 'r query_options" where
  "useSearchSymbols backend params en =
     \<lparr>queryKey = [Name ''symbols'', Params params],
      queryFn = searchSymbols backend params,
      enabled = en\<rparr>"







section \<open>Symbol search (components/SymbolSearch.tsx)\<close>

text \<open>
  The component passes the debounced search text, not the text being typed, to the query,
  and enables the query by the length of the debounced text.
\<close>

definition searchEnabled :: "string \<Rightarrow> bool" where
  "searchEnabled debouncedSearchString \<longleftrightarrow> length debouncedSearchString > 2"

definition SymbolSearch_query ::
  "'r backend \<Rightarrow> string \<Rightarrow> string \<Rightarrow> string \<Rightarrow> 'r query_options" where
  "SymbolSearch_query backend debouncedSearchString exch securityTypeFilter =
     useSearchSymbols backend
       \<lparr>search_string = Some debouncedSearchString,
        exchange_filter = Some exch,
        security_type = Some securityTypeFilter\<rparr>
       (searchEnabled debouncedSearchString)"

section \<open>Notions used to state the claims\<close>

text \<open>
  One call through the API client, seen from outside: exactly one request left the client,
  it carries the bearer credential of the token store as its \<^verbatim>\<open>Authorization\<close> header (and
  no such header when the store holds no token), the requests sent before are untouched,
  and the outcome of the call is the backend's answer to that very request.
\<close>

definition augmented_call :: "'r backend \<Rightarrow> world \<Rightarrow> (failure + 'r) \<times> world \<Rightarrow> bool" where
  "augmented_call backend w res \<longleftrightarrow>
     take (length (sent w)) (sent (snd res)) = sent w \<and>
     (case issued w (snd res) of
        [request] \<Rightarrow>
          headers request ''Authorization'' = bearer_credential w \<and>
          fst res = backend request
      | _ \<Rightarrow> False)"

text \<open>Worlds and backends of the examples.\<close>

definition world_without_token :: world where
  "world_without_token =
     \<lparr>has_window = True, localStorage = Map.empty, sent = [], pushed = [], isLoading = True\<rparr>"

definition world_with_token :: world where
  "world_with_token =
     \<lparr>has_window = True, localStorage = [''authToken'' \<mapsto> ''expired''], sent = [], pushed = [],
      isLoading = True\<rparr>"

definition rejecting_backend :: "string backend" where
  "rejecting_backend = (\<lambda>request. Inl (StatusError 401))"

definition answering_backend :: "string backend" where
  "answering_backend = (\<lambda>request. Inr ''fresh'')"


text \<open>
  A read that goes to the backend: the query issues exactly one request, a \<^verbatim>\<open>GET\<close> of the
  given path, and when the backend answers it the read returns that answer.
\<close>

definition refetches :: "'r backend \<Rightarrow> string \<Rightarrow> 'r query_options \<Rightarrow> world \<times> 'r query_cache \<Rightarrow> bool" where
  "refetches backend path options st \<longleftrightarrow>
     (case useQuery options st of
        (result, w', cache') \<Rightarrow>
          (case issued (fst st) w' of
             [request] \<Rightarrow>
               http_method request = GET \<and> url request = path \<and>
               (case backend request of
                  Inr d \<Rightarrow> result = Some d
                | Inl error \<Rightarrow> True)
           | _ \<Rightarrow> False))"


section \<open>Properties of the Map model\<close>

lemma Map_set_keys:
  "map fst (Map_set m k v) = (if k \<in> fst ` set m then map fst m else map fst m @ [k])"
  by (induction m) force+

lemma Map_set_map_of: "map_of (Map_set m k v) = (map_of m)(k \<mapsto> v)"
  by (induction m) (auto simp: fun_eq_iff)

lemma Map_set_distinct: "distinct (map fst m) \<Longrightarrow> distinct (map fst (Map_set m k v))"
  by (simp add: Map_set_keys)

lemma Map_set_tagged:
  "\<forall>(a, b) \<in> set m. a = f b \<Longrightarrow> \<forall>(a, b) \<in> set (Map_set m (f v) v). a = f b"
  by (induction m) (auto split: if_splits)

lemma Map_fill_Nil: "Map_fill m [] = m"
  by (simp add: Map_fill_def)

lemma Map_fill_Cons: "Map_fill m ((k, v) # es) = Map_fill (Map_set m k v) es"
  by (simp add: Map_fill_def)

lemma Map_fill_append: "Map_fill m (es @ fs) = Map_fill (Map_fill m es) fs"
  by (simp add: Map_fill_def)

lemma Map_fill_distinct: "distinct (map fst m) \<Longrightarrow> distinct (map fst (Map_fill m es))"
proof (induction es arbitrary: m)
  case Nil
  then show ?case by (simp add: Map_fill_Nil)
next
  case (Cons e es)
  obtain k v where e: "e = (k, v)" by (cases e)
  from Cons.prems have "distinct (map fst (Map_set m k v))" by (rule Map_set_distinct)
  then show ?case unfolding e Map_fill_Cons by (rule Cons.IH)
qed

lemma Map_fill_map_of: "map_of (Map_fill m es) = map_of m ++ map_of (rev es)"
proof (induction es arbitrary: m)
  case Nil
  then show ?case by (simp add: Map_fill_Nil)
next
  case (Cons e es)
  obtain k v where e: "e = (k, v)" by (cases e)
  have "map_of (Map_fill (Map_set m k v) es) = (map_of m)(k \<mapsto> v) ++ map_of (rev es)"
    unfolding Cons.IH Map_set_map_of ..
  also have "\<dots> = map_of m ++ ([k \<mapsto> v] ++ map_of (rev es))"
    by (auto simp: fun_eq_iff map_add_def split: option.splits)
  finally show ?case unfolding e Map_fill_Cons by (simp add: map_add_assoc)
qed

lemma Map_fill_keys_mono: "fst ` set m \<subseteq> fst ` set (Map_fill m es)"
proof (induction es arbitrary: m)
  case Nil
  then show ?case by (simp add: Map_fill_Nil)
next
  case (Cons e es)
  obtain k v where e: "e = (k, v)" by (cases e)
  have "fst ` set m \<subseteq> set (map fst (Map_set m k v))"
    by (auto simp: Map_set_keys)
  also have "\<dots> \<subseteq> fst ` set (Map_fill (Map_set m k v) es)"
    using Cons.IH [of "Map_set m k v"] by simp
  finally show ?case unfolding e Map_fill_Cons .
qed

lemma Map_fill_keys_known:
  "fst ` set es \<subseteq> fst ` set m \<Longrightarrow> map fst (Map_fill m es) = map fst m"
proof (induction es arbitrary: m)
  case Nil
  then show ?case by (simp add: Map_fill_Nil)
next
  case (Cons e es)
  obtain k v where e: "e = (k, v)" by (cases e)
  from Cons.prems e have k: "k \<in> fst ` set m" and rest: "fst ` set es \<subseteq> fst ` set m"
    by auto
  have same: "map fst (Map_set m k v) = map fst m"
    using k by (simp add: Map_set_keys)
  then have "fst ` set (Map_set m k v) = fst ` set m"
    by (metis set_map)
  with rest have "map fst (Map_fill (Map_set m k v) es) = map fst (Map_set m k v)"
    by (intro Cons.IH) simp
  with same show ?case unfolding e Map_fill_Cons by simp
qed

lemma Map_fill_keys_cover: "fst ` set es \<subseteq> fst ` set (Map_fill m es)"
proof (induction es arbitrary: m)
  case Nil
  then show ?case by simp
next
  case (Cons e es)
  obtain k v where e: "e = (k, v)" by (cases e)
  have "k \<in> set (map fst (Map_set m k v))"
    by (simp add: Map_set_keys)
  then have "k \<in> fst ` set (Map_set m k v)" by simp
  with Map_fill_keys_mono [of "Map_set m k v" es]
  have "k \<in> fst ` set (Map_fill (Map_set m k v) es)" by blast
  with Cons.IH [of "Map_set m k v"] show ?case unfolding e Map_fill_Cons by simp
qed

lemma Map_fill_fresh:
  "distinct (map fst (m @ es)) \<Longrightarrow> Map_fill m es = m @ es"
proof (induction es arbitrary: m)
  case Nil
  then show ?case by (simp add: Map_fill_Nil)
next
  case (Cons e es)
  obtain k v where e: "e = (k, v)" by (cases e)
  from Cons.prems e have "k \<notin> fst ` set m" by auto
  then have set: "Map_set m k v = m @ [(k, v)]"
    by (induction m) auto
  from Cons.prems e have "distinct (map fst ((m @ [(k, v)]) @ es))" by simp
  then have "Map_fill (m @ [(k, v)]) es = (m @ [(k, v)]) @ es" by (rule Cons.IH)
  with set show ?case unfolding e Map_fill_Cons by simp
qed

lemma Map_fill_tagged:
  "\<forall>(a, b) \<in> set m. a = f b \<Longrightarrow> \<forall>(a, b) \<in> set (Map_fill m (map (\<lambda>x. (f x, x)) xs)). a = f b"
proof (induction xs arbitrary: m)
  case Nil
  then show ?case by (simp add: Map_fill_Nil)
next
  case (Cons x xs)
  from Cons.prems have "\<forall>(a, b) \<in> set (Map_set m (f x) x). a = f b" by (rule Map_set_tagged)
  then show ?case unfolding list.map Map_fill_Cons by (rule Cons.IH)
qed

lemma alist_eqI:
  "map fst xs = map fst ys \<Longrightarrow> map_of xs = map_of ys \<Longrightarrow> distinct (map fst xs) \<Longrightarrow> xs = ys"
proof (induction xs arbitrary: ys)
  case Nil
  then show ?case by simp
next
  case (Cons x xs)
  obtain k v where x: "x = (k, v)" by (cases x)
  from Cons.prems(1) x obtain w ys' where ys: "ys = (k, w) # ys'"
    and ks: "map fst xs = map fst ys'" by (cases ys) auto
  from Cons.prems(2) have "map_of (x # xs) k = map_of ys k" by (rule arg_cong)
  with x ys have v: "v = w" by simp
  have "map_of xs a = map_of ys' a" for a
  proof (cases "a = k")
    case True
    from Cons.prems(3) x have kx: "k \<notin> set (map fst xs)" by simp
    then have "k \<notin> set (map fst ys')" unfolding ks .
    with kx have "map_of xs k = None" and "map_of ys' k = None"
      by (simp_all add: map_of_eq_None_iff)
    with True show ?thesis by simp
  next
    case False
    from Cons.prems(2) have "map_of (x # xs) a = map_of ys a" by (rule arg_cong)
    with x ys False show ?thesis by simp
  qed
  then have "map_of xs = map_of ys'" by (rule ext)
  with ks Cons.prems(3) have "xs = ys'" by (intro Cons.IH) simp_all
  with x ys v show ?case by simp
qed

section \<open>Properties of the reconciliation\<close>

lemma map_of_rev_tagged:
  "map_of (rev (map (\<lambda>i. (f i, i)) xs)) k =
     (if filter (\<lambda>y. f y = k) xs = [] then None else Some (last (filter (\<lambda>y. f y = k) xs)))"
  by (induction xs rule: rev_induct) auto

lemma tagged_keys: "\<forall>(a, b) \<in> set m. a = f b \<Longrightarrow> map fst m = map f (map snd m)"
  by (induction m) auto


lemma reconcile_unfold:
  "handleBulkUpload cur batch =
     map snd (Map_fill [] (map (\<lambda>i. (dedup_key i, i)) (currentSymbols cur @ batch)))"
  by (simp add: handleBulkUpload_def new_Map_def Map_values_def)

lemma handleAddSymbol_as_bulk: "handleAddSymbol cur item = handleBulkUpload cur [item]"
  by (simp add: handleAddSymbol_def handleBulkUpload_def)

lemma reconcile_map_tagged:
  "\<forall>(a, b) \<in> set (Map_fill [] (map (\<lambda>i. (dedup_key i, i)) xs)). a = dedup_key b"
  by (rule Map_fill_tagged) simp

lemma reconcile_map_distinct:
  "distinct (map fst (Map_fill [] (map (\<lambda>i. (dedup_key i, i)) xs)))"
  by (rule Map_fill_distinct) simp

lemma reconcile_dedup_keys_distinct: "distinct (map dedup_key (handleBulkUpload cur batch))"
  unfolding reconcile_unfold tagged_keys [OF reconcile_map_tagged, symmetric]
  by (rule reconcile_map_distinct)

lemma dedup_key_identity: "dedup_key x = (\<lambda>(s, e). s @ js ''-'' @ e) (identity_key x)"
  by (simp add: dedup_key_def identity_key_def)

lemma distinct_map_finer: "distinct (map (\<lambda>x. g (h x)) xs) \<Longrightarrow> distinct (map h xs)"
  by (induction xs) auto

lemma reconcile_identity_keys_distinct:
  "distinct (map identity_key (handleBulkUpload cur batch))"
proof -
  have "distinct (map (\<lambda>x. (\<lambda>(s, e). s @ js ''-'' @ e) (identity_key x)) (handleBulkUpload cur batch))"
    using reconcile_dedup_keys_distinct [of cur batch] by (simp add: dedup_key_identity [abs_def])
  then show ?thesis by (rule distinct_map_finer)
qed

lemma reconcile_lookup:
  "map_of (Map_fill [] (map (\<lambda>i. (dedup_key i, i)) xs)) k =
     (if filter (\<lambda>y. dedup_key y = k) xs = [] then None
      else Some (last (filter (\<lambda>y. dedup_key y = k) xs)))"
  by (simp add: Map_fill_map_of map_of_rev_tagged)

lemma reconcile_map_member_iff:
  "x \<in> set (map snd (Map_fill [] (map (\<lambda>i. (dedup_key i, i)) xs))) \<longleftrightarrow>
     x \<in> set xs \<and> x = last (filter (\<lambda>y. dedup_key y = dedup_key x) xs)"
proof -
  let ?M = "Map_fill [] (map (\<lambda>i. (dedup_key i, i)) xs)"
  have mem: "x \<in> set (map snd ?M) \<longleftrightarrow> map_of ?M (dedup_key x) = Some x"
  proof
    assume "x \<in> set (map snd ?M)"
    then obtain k where kx: "(k, x) \<in> set ?M" by auto
    with reconcile_map_tagged [of xs] have "k = dedup_key x" by auto
    with kx show "map_of ?M (dedup_key x) = Some x"
      using reconcile_map_distinct [of xs] by simp
  next
    assume "map_of ?M (dedup_key x) = Some x"
    then have "(dedup_key x, x) \<in> set ?M" by (rule map_of_SomeD)
    then show "x \<in> set (map snd ?M)" by force
  qed
  let ?same = "filter (\<lambda>y. dedup_key y = dedup_key x) xs"
  have "x \<in> set xs" if "?same \<noteq> []" and "x = last ?same"
  proof -
    from that(1) have "last ?same \<in> set ?same" by (rule last_in_set)
    with that(2) show ?thesis by simp
  qed
  moreover have "?same \<noteq> []" if "x \<in> set xs"
    using that by (auto simp: filter_empty_conv)
  ultimately show ?thesis
    unfolding mem reconcile_lookup by auto
qed

lemma reconcile_member_iff:
  "x \<in> set (handleBulkUpload cur batch) \<longleftrightarrow>
     x \<in> set (currentSymbols cur @ batch) \<and>
     x = last (filter (\<lambda>y. dedup_key y = dedup_key x) (currentSymbols cur @ batch))"
  unfolding reconcile_unfold by (rule reconcile_map_member_iff)


lemma tagged_retag: "\<forall>(a, b) \<in> set m. a = f b \<Longrightarrow> map (\<lambda>i. (f i, i)) (map snd m) = m"
  by (induction m) auto

lemma Map_fill_twice:
  assumes "distinct (map fst m)"
  shows "Map_fill (Map_fill m es) es = Map_fill m es"
proof (rule alist_eqI)
  show "map fst (Map_fill (Map_fill m es) es) = map fst (Map_fill m es)"
    by (rule Map_fill_keys_known) (rule Map_fill_keys_cover)
  show "map_of (Map_fill (Map_fill m es) es) = map_of (Map_fill m es)"
    by (simp add: Map_fill_map_of fun_eq_iff map_add_def split: option.splits)
  show "distinct (map fst (Map_fill (Map_fill m es) es))"
    by (intro Map_fill_distinct assms)
qed

lemma reconcile_refill:
  "Map_fill [] (map (\<lambda>i. (dedup_key i, i)) (map snd (Map_fill [] (map (\<lambda>i. (dedup_key i, i)) xs))))
     = Map_fill [] (map (\<lambda>i. (dedup_key i, i)) xs)"
proof -
  let ?M = "Map_fill [] (map (\<lambda>i. (dedup_key i, i)) xs)"
  have "map (\<lambda>i. (dedup_key i, i)) (map snd ?M) = ?M"
    by (rule tagged_retag) (rule reconcile_map_tagged)
  moreover have "Map_fill [] ?M = [] @ ?M"
    by (rule Map_fill_fresh) (simp add: reconcile_map_distinct)
  ultimately show ?thesis by simp
qed

lemma reconcile_idempotent:
  "handleBulkUpload (Some (handleBulkUpload cur batch)) batch = handleBulkUpload cur batch"
proof -
  let ?tag = "map (\<lambda>i. (dedup_key i, i))"
  let ?B = "Map_fill [] (?tag (currentSymbols cur))"
  let ?M = "Map_fill [] (?tag (currentSymbols cur @ batch))"
  have M: "?M = Map_fill ?B (?tag batch)"
    by (simp only: map_append Map_fill_append)
  have "handleBulkUpload (Some (map snd ?M)) batch
          = map snd (Map_fill (Map_fill [] (?tag (map snd ?M))) (?tag batch))"
    by (simp only: reconcile_unfold currentSymbols_def option.case map_append Map_fill_append)
  also have "\<dots> = map snd (Map_fill ?M (?tag batch))"
    by (simp only: reconcile_refill)
  also have "\<dots> = map snd (Map_fill (Map_fill ?B (?tag batch)) (?tag batch))"
    by (simp only: M)
  also have "\<dots> = map snd (Map_fill ?B (?tag batch))"
    by (simp only: Map_fill_twice [OF reconcile_map_distinct])
  also have "\<dots> = map snd ?M"
    by (simp only: M)
  finally show ?thesis by (simp only: reconcile_unfold)
qed

lemma distinct_map_count: "distinct (map f xs) \<Longrightarrow> length (filter (\<lambda>x. f x = k) xs) \<le> 1"
  by (induction xs) (auto simp: filter_empty_conv image_iff)




section \<open>Claims about the reconciliation\<close>




text \<open>
  C2. After a manual add or a bulk upload, the list that is submitted holds at most one
  entry per (symbol, exchange) key, whatever the current list and the batch are.
\<close>

theorem ingestion_list_unique_keys:
  "distinct (map identity_key (handleBulkUpload cur batch)) \<and>
   distinct (map identity_key (handleAddSymbol cur item)) \<and>
   length (filter (\<lambda>x. identity_key x = k) (handleBulkUpload cur batch)) \<le> 1 \<and>
   length (filter (\<lambda>x. identity_key x = k) (handleAddSymbol cur item)) \<le> 1"
  unfolding handleAddSymbol_as_bulk
  by (intro conjI distinct_map_count reconcile_identity_keys_distinct)

text \<open>
  C3. Merging a batch into a list and then merging the same batch into the result gives
  the very list of the first merge: the same entries in the same order, hence the same
  set, the same length and no duplicate key.
\<close>

theorem reconciliation_idempotent:
  "handleBulkUpload (Some (handleBulkUpload cur batch)) batch = handleBulkUpload cur batch \<and>
   handleAddSymbol (Some (handleAddSymbol cur item)) item = handleAddSymbol cur item \<and>
   set (handleBulkUpload (Some (handleBulkUpload cur batch)) batch)
     = set (handleBulkUpload cur batch) \<and>
   length (handleBulkUpload (Some (handleBulkUpload cur batch)) batch)
     = length (handleBulkUpload cur batch) \<and>
   distinct (map identity_key (handleBulkUpload (Some (handleBulkUpload cur batch)) batch))"
  by (simp add: handleAddSymbol_as_bulk reconcile_idempotent reconcile_identity_keys_distinct)

text \<open>
  C10. The key of the merge is the string symbol-exchange, so the entries (A, B-C) and
  (A-B, C), which differ in both fields, have the same key A-B-C. A batch holding both, in
  that order, is merged to a list that keeps (A-B, C) and no longer holds (A, B-C),
  whatever the current list is; merged into no list or the empty list it leaves
  (A-B, C) alone.
\<close>

theorem dedup_key_collision:
  "identity_key entry_A_BC \<noteq> identity_key entry_AB_C \<and>
   dedup_key entry_A_BC = js ''A-B-C'' \<and> dedup_key entry_AB_C = js ''A-B-C'' \<and>
   handleBulkUpload None [entry_A_BC, entry_AB_C] = [entry_AB_C] \<and>
   handleBulkUpload (Some []) [entry_A_BC, entry_AB_C] = [entry_AB_C] \<and>
   entry_A_BC \<notin> set (handleBulkUpload cur [entry_A_BC, entry_AB_C]) \<and>
   entry_AB_C \<in> set (handleBulkUpload cur [entry_A_BC, entry_AB_C])"
proof -
  have keys: "dedup_key entry_A_BC = js ''A-B-C''" "dedup_key entry_AB_C = js ''A-B-C''"
    by (simp_all add: dedup_key_def entry_A_BC_def entry_AB_C_def js_def)
  have ne: "entry_A_BC \<noteq> entry_AB_C" "identity_key entry_A_BC \<noteq> identity_key entry_AB_C"
    by (simp_all add: identity_key_def entry_A_BC_def entry_AB_C_def js_def)
  have "handleBulkUpload None [entry_A_BC, entry_AB_C] = [entry_AB_C]"
    "handleBulkUpload (Some []) [entry_A_BC, entry_AB_C] = [entry_AB_C]"
    by (simp_all add: handleBulkUpload_def currentSymbols_def new_Map_def Map_fill_def
        Map_values_def keys)
  moreover have "entry_A_BC \<notin> set (handleBulkUpload cur [entry_A_BC, entry_AB_C])"
    "entry_AB_C \<in> set (handleBulkUpload cur [entry_A_BC, entry_AB_C])"
    using ne by (simp_all add: reconcile_member_iff keys)
  ultimately show ?thesis using keys ne by simp
qed

section \<open>Properties of the string functions\<close>

lemma String_split_nonempty: "String_split sep s \<noteq> []"
  by (induction s) (auto split: list.splits)

lemma String_split_unfold:
  "String_split sep s =
     takeWhile (\<lambda>c. c \<noteq> sep) s #
       (if sep \<in> set s then String_split sep (drop 1 (dropWhile (\<lambda>c. c \<noteq> sep) s)) else [])"
  by (induction s) (auto split: list.splits)

lemma String_split_hd_tl:
  "String_split sep s = takeWhile (\<lambda>c. c \<noteq> sep) s # tl (String_split sep s)"
proof -
  have "hd (String_split sep s) = takeWhile (\<lambda>c. c \<noteq> sep) s"
    by (subst String_split_unfold) simp
  with String_split_nonempty [of sep s] show ?thesis
    by (cases "String_split sep s") simp_all
qed

lemma String_split_snoc:
  "String_split sep (s @ [c]) =
     (if c = sep then String_split sep s @ [[]]
      else butlast (String_split sep s) @ [last (String_split sep s) @ [c]])"
  by (induction s) (auto split: list.splits simp: String_split_nonempty)

lemma String_split_Cons_other:
  "c \<noteq> sep \<Longrightarrow>
     String_split sep (c # s) = (c # hd (String_split sep s)) # tl (String_split sep s)"
  by (cases "String_split sep s") (simp_all add: String_split_nonempty)

lemma String_trim_Cons_white: "isWhiteSpace c \<Longrightarrow> String_trim (c # s) = String_trim s"
  by (simp add: String_trim_def)

lemma String_trim_snoc_white:
  "String_trim (s @ [c]) = String_trim s" if "isWhiteSpace c"
proof (cases "\<forall>x \<in> set s. isWhiteSpace x")
  case True
  then have a: "dropWhile isWhiteSpace s = []" by simp
  from True that have b: "dropWhile isWhiteSpace (s @ [c]) = []" by simp
  show ?thesis by (simp only: String_trim_def a b)
next
  case False
  then show ?thesis using that by (auto simp: String_trim_def dropWhile_append)
qed

lemma comma_not_white: "\<not> isWhiteSpace COMMA"
  by (simp add: isWhiteSpace_def)

lemma newline_white: "isWhiteSpace LINE_FEED"
  by (simp add: isWhiteSpace_def)

lemma trimmed_fields_Cons_white:
  assumes "isWhiteSpace c"
  shows "map String_trim (String_split COMMA (c # l)) = map String_trim (String_split COMMA l)"
proof -
  from assms comma_not_white have "c \<noteq> COMMA" by auto
  then show ?thesis
    using assms String_split_nonempty [of COMMA l]
    by (cases "String_split COMMA l") (simp_all add: String_trim_Cons_white)
qed

lemma trimmed_fields_snoc_white:
  assumes "isWhiteSpace c"
  shows "map String_trim (String_split COMMA (l @ [c])) = map String_trim (String_split COMMA l)"
proof -
  let ?fs = "String_split COMMA l"
  from assms comma_not_white have "c \<noteq> COMMA" by auto
  then have "map String_trim (String_split COMMA (l @ [c]))
               = map String_trim (butlast ?fs) @ [String_trim (last ?fs @ [c])]"
    by (simp add: String_split_snoc)
  also have "\<dots> = map String_trim (butlast ?fs @ [last ?fs])"
    using assms by (simp add: String_trim_snoc_white)
  also have "\<dots> = map String_trim ?fs"
    by (simp add: String_split_nonempty)
  finally show ?thesis .
qed

section \<open>Properties of the bulk-upload parsing\<close>

lemma parseLine_Cons_white: "isWhiteSpace c \<Longrightarrow> parseLine U acc (c # l) = parseLine U acc l"
  by (simp only: parseLine_def trimmed_fields_Cons_white)

lemma parseLine_snoc_white: "isWhiteSpace c \<Longrightarrow> parseLine U acc (l @ [c]) = parseLine U acc l"
  by (simp only: parseLine_def trimmed_fields_snoc_white)

lemma parseLine_empty: "parseLine U acc [] = acc"
  by (simp add: parseLine_def destructure2_def)

lemma parseLine_acc: "parseLine U acc l = acc @ parseLine U [] l"
  by (simp add: parseLine_def split: prod.splits option.splits)

lemma foldl_parseLine: "foldl (parseLine U) acc ls = acc @ concat (map (parseLine U []) ls)"
proof (induction ls arbitrary: acc)
  case Nil
  then show ?case by simp
next
  case (Cons l ls)
  have "foldl (parseLine U) acc (l # ls) = parseLine U acc l @ concat (map (parseLine U []) ls)"
    by (simp add: Cons.IH)
  also have "\<dots> = acc @ parseLine U [] l @ concat (map (parseLine U []) ls)"
    by (subst parseLine_acc) simp
  finally show ?case by simp
qed

lemma parseLine_two_fields: "parseLine U [] line = amended_parseLine_two_fields U line"
proof (cases "COMMA \<in> set line")
  case False
  then have "String_split COMMA line = [takeWhile (\<lambda>c. c \<noteq> COMMA) line]"
    by (subst String_split_unfold) simp
  with False show ?thesis
    by (simp add: parseLine_def amended_parseLine_two_fields_def destructure2_def)
next
  case True
  let ?rest = "drop 1 (dropWhile (\<lambda>c. c \<noteq> COMMA) line)"
  have "String_split COMMA line
          = takeWhile (\<lambda>c. c \<noteq> COMMA) line # String_split COMMA ?rest"
    using True by (subst String_split_unfold) simp
  also have "String_split COMMA ?rest
          = takeWhile (\<lambda>c. c \<noteq> COMMA) ?rest # tl (String_split COMMA ?rest)"
    by (rule String_split_hd_tl)
  finally show ?thesis using True
    by (simp add: parseLine_def amended_parseLine_two_fields_def destructure2_def truthy_def
        Let_def)
qed

lemma lines_Cons_white:
  assumes "isWhiteSpace c"
  shows "concat (map (parseLine U []) (String_split LINE_FEED (c # s)))
           = concat (map (parseLine U []) (String_split LINE_FEED s))"
proof (cases "c = LINE_FEED")
  case True
  then show ?thesis by (simp add: parseLine_empty)
next
  case False
  then show ?thesis
    using assms String_split_nonempty [of LINE_FEED s]
    by (cases "String_split LINE_FEED s") (simp_all add: parseLine_Cons_white)
qed

lemma lines_snoc_white:
  assumes "isWhiteSpace c"
  shows "concat (map (parseLine U []) (String_split LINE_FEED (s @ [c])))
           = concat (map (parseLine U []) (String_split LINE_FEED s))"
proof (cases "c = LINE_FEED")
  case True
  then show ?thesis by (simp add: String_split_snoc parseLine_empty)
next
  case False
  let ?ls = "String_split LINE_FEED s"
  from False have "concat (map (parseLine U []) (String_split LINE_FEED (s @ [c])))
      = concat (map (parseLine U []) (butlast ?ls)) @ parseLine U [] (last ?ls @ [c])"
    by (simp add: String_split_snoc)
  also have "\<dots> = concat (map (parseLine U []) (butlast ?ls @ [last ?ls]))"
    using assms by (simp add: parseLine_snoc_white)
  also have "\<dots> = concat (map (parseLine U []) ?ls)"
    by (simp add: String_split_nonempty)
  finally show ?thesis .
qed

lemma lines_dropWhile_white:
  "concat (map (parseLine U []) (String_split LINE_FEED (dropWhile isWhiteSpace s)))
     = concat (map (parseLine U []) (String_split LINE_FEED s))"
proof (induction s)
  case Nil
  then show ?case by simp
next
  case (Cons c s)
  show ?case
  proof (cases "isWhiteSpace c")
    case True
    then show ?thesis using Cons.IH by (simp only: dropWhile.simps if_True lines_Cons_white)
  next
    case False
    then show ?thesis by simp
  qed
qed

lemma lines_dropWhile_white_end:
  "concat (map (parseLine U []) (String_split LINE_FEED (rev (dropWhile isWhiteSpace (rev s)))))
     = concat (map (parseLine U []) (String_split LINE_FEED s))"
proof (induction s rule: rev_induct)
  case Nil
  then show ?case by simp
next
  case (snoc c s)
  show ?case
  proof (cases "isWhiteSpace c")
    case True
    then show ?thesis using snoc.IH
      by (simp only: rev_append rev.simps append_Nil append_Cons dropWhile.simps if_True
          lines_snoc_white)
  next
    case False
    then show ?thesis by simp
  qed
qed

lemma parseSymbols_lines:
  "parseSymbols U text = concat (map (parseLine U []) (String_split LINE_FEED text))"
  by (simp add: parseSymbols_def foldl_parseLine String_trim_def
      lines_dropWhile_white_end lines_dropWhile_white)

lemma parseSymbols_amended: "parseSymbols U text = amended_parseSymbols_two_fields U text"
  by (simp add: parseSymbols_lines amended_parseSymbols_two_fields_def parseLine_two_fields [abs_def])

lemma one_comma_rest:
  assumes "length (filter (\<lambda>c. c = COMMA) line) \<le> 1"
  shows "COMMA \<notin> set (drop 1 (dropWhile (\<lambda>c. c \<noteq> COMMA) line))"
  using assms
proof (induction line)
  case Nil
  then show ?case by simp
next
  case (Cons c line)
  show ?case
  proof (cases "c = COMMA")
    case True
    with Cons.prems have "filter (\<lambda>c. c = COMMA) line = []" by simp
    then have "COMMA \<notin> set line" by (auto simp: filter_empty_conv)
    with True show ?thesis by simp
  next
    case False
    with Cons show ?thesis by simp
  qed
qed

lemma amended_agrees_first_comma:
  assumes "length (filter (\<lambda>c. c = COMMA) line) \<le> 1"
  shows "amended_parseLine_two_fields U line = spec_parseLine_first_comma U line"
proof -
  have "takeWhile (\<lambda>c. c \<noteq> COMMA) (drop 1 (dropWhile (\<lambda>c. c \<noteq> COMMA) line))
          = drop 1 (dropWhile (\<lambda>c. c \<noteq> COMMA) line)"
    using one_comma_rest [OF assms] by (simp only: takeWhile_eq_all_conv) blast
  then show ?thesis
    by (simp only: amended_parseLine_two_fields_def spec_parseLine_first_comma_def)
qed

section \<open>Claims about the bulk-upload parsing\<close>

text \<open>
  C4, as stated: every line is split on its first comma into symbol code and exchange
  code. The line A,B,C refutes it: the code splits on every comma and takes the first two
  fields, so the exchange code is B, where the split on the first comma gives B,C.
\<close>

theorem parseSymbols_first_comma_counterexample:
  "parseSymbols id (js ''A,B,C'')
     = [\<lparr>symbol = js ''A'', exchange = js ''B'', description = None, securityType = None\<rparr>] \<and>
   spec_parseSymbols_first_comma id (js ''A,B,C'')
     = [\<lparr>symbol = js ''A'', exchange = js ''B,C'', description = None, securityType = None\<rparr>] \<and>
   parseSymbols id (js ''A,B,C'') \<noteq> spec_parseSymbols_first_comma id (js ''A,B,C'')"
  by (simp add: parseSymbols_def spec_parseSymbols_first_comma_def
      spec_parseLine_first_comma_def String_trim_def isWhiteSpace_def parseLine_def
      destructure2_def truthy_def toUpperCase_def toUpperCase_ascii_def js_def)

text \<open>
  C4, amended. For every input text, a sequence of UTF-16 code units, and whatever the
  case table of the engine is, \<open>parseSymbols\<close> returns, line by line and in order, what the
  amended rule gives: the symbol code is the text before the first comma, the exchange
  code the text between the first and the second comma (or the end of the line), both
  trimmed, the symbol code upper-cased; a line without a comma, or with an empty symbol or
  exchange code, contributes nothing, and the function has no error result. When no line
  has more than one comma this is the split on the first comma. The text
  AAPL,NASDAQ / badline / MSFT, NASDAQ parses to (AAPL, NASDAQ), (MSFT, NASDAQ); no-break
  spaces around the fields are trimmed like blanks; a symbol code outside ASCII is
  upper-cased by the table of the engine.
\<close>

theorem parseSymbols_two_fields:
  "parseSymbols U text = amended_parseSymbols_two_fields U text \<and>
   ((\<forall>line \<in> set (String_split LINE_FEED text). length (filter (\<lambda>c. c = COMMA) line) \<le> 1) \<longrightarrow>
      parseSymbols U text = spec_parseSymbols_first_comma U text) \<and>
   parseSymbols U bulk_example_text = bulk_example_result \<and>
   parseSymbols U nbsp_example_text
     = [\<lparr>symbol = js ''AAPL'', exchange = js ''NASDAQ'', description = None,
         securityType = None\<rparr>] \<and>
   parseSymbols U accent_example_text
     = [\<lparr>symbol = U [0xE9], exchange = js ''X'', description = None, securityType = None\<rparr>]"
proof (intro conjI impI)
  show "parseSymbols U text = amended_parseSymbols_two_fields U text"
    by (rule parseSymbols_amended)
  show "parseSymbols U bulk_example_text = bulk_example_result"
    by (simp add: parseSymbols_def bulk_example_text_def bulk_example_result_def
        String_trim_def isWhiteSpace_def parseLine_def destructure2_def truthy_def
        toUpperCase_def toUpperCase_ascii_def js_def)
  show "parseSymbols U nbsp_example_text
     = [\<lparr>symbol = js ''AAPL'', exchange = js ''NASDAQ'', description = None,
         securityType = None\<rparr>]"
    by (simp add: parseSymbols_def nbsp_example_text_def
        String_trim_def isWhiteSpace_def parseLine_def destructure2_def truthy_def
        toUpperCase_def toUpperCase_ascii_def js_def)
  show "parseSymbols U accent_example_text
     = [\<lparr>symbol = U [0xE9], exchange = js ''X'', description = None, securityType = None\<rparr>]"
    by (simp add: parseSymbols_def accent_example_text_def
        String_trim_def isWhiteSpace_def parseLine_def destructure2_def truthy_def
        toUpperCase_def toUpperCase_ascii_def js_def)
  assume "\<forall>line \<in> set (String_split LINE_FEED text). length (filter (\<lambda>c. c = COMMA) line) \<le> 1"
  then have "map (amended_parseLine_two_fields U) (String_split LINE_FEED text)
               = map (spec_parseLine_first_comma U) (String_split LINE_FEED text)"
    by (intro map_cong refl amended_agrees_first_comma) blast
  then show "parseSymbols U text = spec_parseSymbols_first_comma U text"
    by (simp only: parseSymbols_amended amended_parseSymbols_two_fields_def
        spec_parseSymbols_first_comma_def)
qed

theorem parseSymbols_two_fields_witness:
  "list_all (\<lambda>line. length (filter (\<lambda>c. c = COMMA) line) \<le> 1)
     (String_split LINE_FEED bulk_example_text) \<and>
   parseSymbols id bulk_example_text = spec_parseSymbols_first_comma id bulk_example_text \<and>
   spec_parseSymbols_first_comma id bulk_example_text = bulk_example_result"
proof -
  have few: "list_all (\<lambda>line. length (filter (\<lambda>c. c = COMMA) line) \<le> 1)
     (String_split LINE_FEED bulk_example_text)"
    by (simp add: bulk_example_text_def js_def)
  then have "\<forall>line \<in> set (String_split LINE_FEED bulk_example_text).
     length (filter (\<lambda>c. c = COMMA) line) \<le> 1"
    by (simp only: list_all_iff)
  with parseSymbols_two_fields [of id bulk_example_text]
  have "parseSymbols id bulk_example_text = spec_parseSymbols_first_comma id bulk_example_text"
    and "parseSymbols id bulk_example_text = bulk_example_result"
    by blast+
  with few show ?thesis by simp
qed

section \<open>Properties of the API client\<close>

lemma interceptor_authorization:
  "headers (request_interceptor w config) ''Authorization'' =
     (case bearer_credential w of None \<Rightarrow> headers config ''Authorization'' | Some b \<Rightarrow> Some b)"
  by (simp add: request_interceptor_def bearer_credential_def truthy_def Let_def split: option.splits)

lemma interceptor_other_fields:
  "http_method (request_interceptor w config) = http_method config"
  "url (request_interceptor w config) = url config"
  "payload (request_interceptor w config) = payload config"
  "name \<noteq> ''Authorization'' \<Longrightarrow> headers (request_interceptor w config) name = headers config name"
  by (simp_all add: request_interceptor_def truthy_def Let_def split: option.splits)

lemma issued_api_request:
  "issued w (snd (api_request backend config w)) = [request_interceptor w config]"
  by (simp add: api_request_def issued_def Let_def)

lemma api_request_augmented:
  "headers config ''Authorization'' = None \<Longrightarrow>
     augmented_call backend w (api_request backend config w)"
  unfolding augmented_call_def issued_api_request
  by (simp add: interceptor_authorization split: option.splits) (simp add: api_request_def Let_def)

lemma api_get_augmented: "augmented_call backend w (api_get backend path params w)"
  unfolding api_get_def by (rule api_request_augmented) simp

lemma api_post_augmented:
  "hdrs ''Authorization'' = None \<Longrightarrow> augmented_call backend w (api_post backend path body hdrs w)"
  unfolding api_post_def by (rule api_request_augmented) simp

lemma api_get_sent:
  "snd (api_get backend path params w) = w\<lparr>sent := sent w @
     [request_interceptor w \<lparr>http_method = GET, url = path, payload = params, headers = Map.empty\<rparr>]\<rparr>"
  by (simp add: api_get_def api_request_def Let_def)

lemma api_get_outcome:
  "fst (api_get backend path params w) =
     backend (request_interceptor w \<lparr>http_method = GET, url = path, payload = params, headers = Map.empty\<rparr>)"
  by (simp add: api_get_def api_request_def Let_def)

section \<open>Claims about the API client\<close>

text \<open>
  C8. Each of the endpoint functions of the API client issues exactly one request, and
  that request has passed the request interceptor: its \<open>Authorization\<close> header is
  \<open>Bearer\<close> followed by the stored token if and only if the token store holds a (non-empty)
  token, and it has no such header otherwise. The backend's answer is the answer to the
  request so augmented.
\<close>

theorem every_request_augmented:
  "augmented_call backend w (searchSymbols backend params w) \<and>
   augmented_call backend w (getIngestedSymbols backend w) \<and>
   augmented_call backend w (addSymbol backend item w) \<and>
   augmented_call backend w (removeIngestedSymbol backend item w) \<and>
   augmented_call backend w (setSymbols backend symbols w) \<and>
   augmented_call backend w (getSystemConfig backend w) \<and>
   augmented_call backend w (setSystemConfig backend config w) \<and>
   augmented_call backend w (loginUser backend credentials w) \<and>
   augmented_call backend w (getCurrentUser backend w) \<and>
   (bearer_credential w \<noteq> None \<longleftrightarrow> truthy (getToken w)) \<and>
   (bearer_credential world_with_token = Some ''Bearer expired'') \<and>
   (bearer_credential world_without_token = None)"
proof -
  have "bearer_credential w \<noteq> None \<longleftrightarrow> truthy (getToken w)"
    by (simp add: bearer_credential_def truthy_def split: option.splits)
  moreover have "bearer_credential world_with_token = Some ''Bearer expired''"
    by (simp add: bearer_credential_def getToken_def world_with_token_def TOKEN_KEY_def)
  moreover have "bearer_credential world_without_token = None"
    by (simp add: bearer_credential_def getToken_def world_without_token_def)
  moreover have "augmented_call backend w (loginUser backend credentials w)"
    unfolding loginUser_def Let_def by (rule api_post_augmented) simp
  ultimately show ?thesis
    by (simp add: searchSymbols_def getIngestedSymbols_def addSymbol_def
        removeIngestedSymbol_def setSymbols_def getSystemConfig_def setSystemConfig_def
        getCurrentUser_def api_get_augmented api_post_augmented)
qed

section \<open>Properties of the auth gate\<close>

lemma getToken_sent_update [simp]: "getToken (w\<lparr>sent := s\<rparr>) = getToken w"
  by (simp add: getToken_def)

lemma getToken_mount [simp]: "getToken (mount w) = getToken w"
  by (simp add: getToken_def mount_def)

lemma getToken_removeToken: "getToken (removeToken w) = None"
  by (simp add: getToken_def removeToken_def)

lemma truthy_has_window: "truthy (getToken w) \<Longrightarrow> has_window w"
  by (simp add: getToken_def truthy_def split: if_splits)

lemma getCurrentUser_mount:
  "fst (getCurrentUser backend (mount w)) = fst (getCurrentUser backend w)"
  by (simp add: getCurrentUser_def api_get_outcome request_interceptor_def Let_def)

lemma verifyToken_rejected:
  assumes "pathname \<noteq> ''/login''" and "truthy (getToken w)"
    and "fst (getCurrentUser backend w) = Inl error"
  shows "verifyToken backend pathname w =
           router_push ''/login'' (removeToken (snd (getCurrentUser backend w)))"
proof -
  obtain r w' where call: "getCurrentUser backend w = (r, w')"
    by (cases "getCurrentUser backend w")
  with assms(3) have "r = Inl error" by simp
  with call assms(1,2) show ?thesis by (simp add: verifyToken_def Let_def)
qed

lemma verifyToken_no_token:
  assumes "pathname \<noteq> ''/login''" and "\<not> truthy (getToken w)"
  shows "verifyToken backend pathname w = router_push ''/login'' w"
  using assms by (simp add: verifyToken_def Let_def)

section \<open>Claims about the auth gate\<close>

text \<open>
  C5. On a protected route with a stored token, whenever the identity-verification call
  fails, with whatever error, the gate removes the stored token, pushes the login route
  and leaves \<open>isLoading\<close> as it was: a wrapper that has just been mounted keeps rendering
  the loading indicator and never the wrapped component.
\<close>

theorem verifyToken_failure_clears_and_redirects:
  assumes "pathname \<noteq> ''/login''" and "truthy (getToken w)"
    and "fst (getCurrentUser backend w) = Inl error"
  shows "getToken (verifyToken backend pathname w) = None \<and>
         localStorage (verifyToken backend pathname w) TOKEN_KEY = None \<and>
         \<not> isAuthenticated (verifyToken backend pathname w) \<and>
         pushed (verifyToken backend pathname w) = pushed w @ [''/login''] \<and>
         isLoading (verifyToken backend pathname w) = isLoading w \<and>
         render (verifyToken backend pathname (mount w)) = Authenticating"
proof -
  let ?w' = "snd (getCurrentUser backend w)"
  have w': "?w' = w\<lparr>sent := sent ?w'\<rparr>"
    by (simp add: getCurrentUser_def api_get_sent)
  have v: "verifyToken backend pathname w = router_push ''/login'' (removeToken ?w')"
    using assms by (rule verifyToken_rejected)
  from assms(2) have win: "has_window w" by (rule truthy_has_window)
  have "has_window ?w'" by (subst w') (simp add: win)
  then have stored: "localStorage (removeToken ?w') TOKEN_KEY = None"
    by (simp add: removeToken_def)
  have "getToken (router_push ''/login'' x) = getToken x" for x
    by (simp add: getToken_def router_push_def)
  then have tok: "getToken (router_push ''/login'' (removeToken ?w')) = None"
    by (simp only: getToken_removeToken)
  have pushed: "pushed (router_push ''/login'' (removeToken ?w')) = pushed w @ [''/login'']"
    by (subst w') (simp add: router_push_def removeToken_def)
  have loading: "isLoading (router_push ''/login'' (removeToken ?w')) = isLoading w"
    by (subst w') (simp add: router_push_def removeToken_def)
  have mounted: "verifyToken backend pathname (mount w)
      = router_push ''/login'' (removeToken (snd (getCurrentUser backend (mount w))))"
    using assms by (intro verifyToken_rejected) (simp_all add: getCurrentUser_mount)
  have "isLoading (verifyToken backend pathname (mount w))"
    unfolding mounted
    by (simp add: router_push_def removeToken_def getCurrentUser_def api_get_sent mount_def)
  then have "render (verifyToken backend pathname (mount w)) = Authenticating"
    by (simp add: render_def)
  with stored tok pushed loading show ?thesis
    unfolding v by (simp add: isAuthenticated_def truthy_def router_push_def)
qed

theorem verifyToken_failure_clears_and_redirects_witness:
  "''/ingestion'' \<noteq> ''/login'' \<and> truthy (getToken world_with_token) \<and>
   fst (getCurrentUser rejecting_backend world_with_token) = Inl (StatusError 401) \<and>
   getToken (verifyToken rejecting_backend ''/ingestion'' world_with_token) = None \<and>
   pushed (verifyToken rejecting_backend ''/ingestion'' world_with_token) = [''/login''] \<and>
   isLoading (verifyToken rejecting_backend ''/ingestion'' world_with_token) \<and>
   render (verifyToken rejecting_backend ''/ingestion'' (mount world_with_token)) = Authenticating"
proof -
  have route: "''/ingestion'' \<noteq> ''/login''" by simp
  have token: "truthy (getToken world_with_token)"
    by (simp add: truthy_def getToken_def world_with_token_def TOKEN_KEY_def)
  have rejected: "fst (getCurrentUser rejecting_backend world_with_token) = Inl (StatusError 401)"
    by (simp add: getCurrentUser_def api_get_outcome rejecting_backend_def)
  from verifyToken_failure_clears_and_redirects [OF route token rejected]
  show ?thesis using token rejected by (simp add: world_with_token_def)
qed

text \<open>
  C6. On a protected route with no stored token (or an empty one), the gate pushes the
  login route at once: no request leaves the client, the token store is untouched, and
  \<open>isLoading\<close> stays as it was, so a wrapper that has just been mounted renders only the
  loading indicator.
\<close>

theorem verifyToken_no_token_redirects_without_request:
  assumes "pathname \<noteq> ''/login''" and "\<not> truthy (getToken w)"
  shows "sent (verifyToken backend pathname w) = sent w \<and>
         issued w (verifyToken backend pathname w) = [] \<and>
         pushed (verifyToken backend pathname w) = pushed w @ [''/login''] \<and>
         localStorage (verifyToken backend pathname w) = localStorage w \<and>
         isLoading (verifyToken backend pathname w) = isLoading w \<and>
         render (verifyToken backend pathname (mount w)) = Authenticating"
proof -
  have v: "verifyToken backend pathname w = router_push ''/login'' w"
    using assms by (rule verifyToken_no_token)
  have "verifyToken backend pathname (mount w) = router_push ''/login'' (mount w)"
    using assms by (intro verifyToken_no_token) simp_all
  then have "render (verifyToken backend pathname (mount w)) = Authenticating"
    by (simp add: render_def router_push_def mount_def)
  then show ?thesis unfolding v by (simp add: router_push_def issued_def)
qed

theorem verifyToken_no_token_redirects_without_request_witness:
  "''/ingestion'' \<noteq> ''/login'' \<and> getToken world_without_token = None \<and>
   \<not> truthy (getToken world_without_token) \<and>
   sent (verifyToken answering_backend ''/ingestion'' world_without_token) = [] \<and>
   pushed (verifyToken answering_backend ''/ingestion'' world_without_token) = [''/login''] \<and>
   render (verifyToken answering_backend ''/ingestion'' (mount world_without_token)) = Authenticating"
proof -
  have route: "''/ingestion'' \<noteq> ''/login''" by simp
  have none: "getToken world_without_token = None"
    by (simp add: getToken_def world_without_token_def)
  then have token: "\<not> truthy (getToken world_without_token)"
    by (simp add: truthy_def)
  from verifyToken_no_token_redirects_without_request [OF route token, of answering_backend]
  show ?thesis using none token by (simp add: world_without_token_def)
qed

section \<open>Properties of the data-access hooks\<close>




lemma useQuery_refetches:
  assumes "enabled options"
    and "queryFn options = api_get backend path params"
    and "\<And>e. cache (queryKey options) = Some e \<Longrightarrow> isInvalidated e"
  shows "refetches backend path options (w, cache)"
proof -
  let ?request = "request_interceptor w
      \<lparr>http_method = GET, url = path, payload = params, headers = Map.empty\<rparr>"
  have must: "(case cache (queryKey options) of None \<Rightarrow> True
                | Some e \<Rightarrow> entry_data e = None \<or> isInvalidated e)"
    using assms(3) by (simp split: option.splits)
  have call: "queryFn options w = (backend ?request, w\<lparr>sent := sent w @ [?request]\<rparr>)"
    by (simp add: assms(2) api_get_def api_request_def Let_def)
  show ?thesis
  proof (cases "backend ?request")
    case (Inl error)
    with assms(1) must call show ?thesis
      by (simp add: refetches_def useQuery_def Let_def issued_def interceptor_other_fields)
  next
    case (Inr d)
    with assms(1) must call show ?thesis
      by (simp add: refetches_def useQuery_def Let_def issued_def interceptor_other_fields)
  qed
qed



text \<open>
  The gate of the symbol search, for whatever debounced text the component holds: with at
  most two characters the query sends nothing and leaves the cache alone (and has no data
  unless the cache already holds some under that very key); with more than two characters
  and nothing usable in the cache it sends one \<open>GET\<close> of the search path.
\<close>

lemma search_gate_closed:
  assumes "length debounced \<le> 2"
  shows "useQuery (SymbolSearch_query backend debounced exch sec) (w, cache)
           = (case cache (queryKey (SymbolSearch_query backend debounced exch sec)) of
                None \<Rightarrow> None | Some e \<Rightarrow> entry_data e, w, cache)"
  using assms
  by (simp add: useQuery_def SymbolSearch_query_def useSearchSymbols_def searchEnabled_def Let_def)

lemma search_gate_open:
  assumes "length debounced > 2"
    and "cache (queryKey (SymbolSearch_query backend debounced exch sec)) = None"
  shows "refetches backend ''/search_symbols/'' (SymbolSearch_query backend debounced exch sec)
           (w, cache)"
proof (rule useQuery_refetches)
  show "enabled (SymbolSearch_query backend debounced exch sec)"
    using assms(1) by (simp add: SymbolSearch_query_def useSearchSymbols_def searchEnabled_def)
  show "queryFn (SymbolSearch_query backend debounced exch sec)
          = api_get backend ''/search_symbols/''
              (QueryParams \<lparr>search_string = Some debounced, exchange_filter = Some exch,
                            security_type = Some sec\<rparr>)"
    by (simp add: SymbolSearch_query_def useSearchSymbols_def searchSymbols_def)
  show "isInvalidated e"
    if "cache (queryKey (SymbolSearch_query backend debounced exch sec)) = Some e" for e
    using that assms(2) by simp
qed

section \<open>Claims about the data-access hooks\<close>



end
